theory Spec2Isabelle
  imports Complex_Main
begin

section \<open>Data model\<close>

text \<open>
  An observation matrix is a list of frames, a frame a list of feature values. Python
  floats are modelled as reals (no rounding, no NaN); the recogniser also records
  negative infinity, so its scores are \<open>pyfloat\<close>.
\<close>

type_synonym frame = "real list"
type_synonym obs = "frame list"

datatype error = AttributeError | ValueError | KeyError | IndexError | ScoreError

datatype pyfloat = NegInf | Fin real

text \<open>Python's \<open>a > b\<close> on floats, \<open>float("-inf")\<close> included.\<close>

fun float_gt :: "pyfloat \<Rightarrow> pyfloat \<Rightarrow> bool" where
  "float_gt NegInf b = False"
| "float_gt (Fin a) NegInf = True"
| "float_gt (Fin a) (Fin b) = (a > b)"

text \<open>
  A \<open>GaussianHMM\<close> object: the constructor stores \<open>n_components\<close>, \<open>fit\<close> computes
  the parameters (of an abstract type \<open>'p\<close>) and returns the object itself.
\<close>

record 'p gaussian_hmm =
  n_components :: int
  params :: 'p

text \<open>
  The hmmlearn primitives the code consumes. \<open>hmm_fit n random_state X lengths\<close> is
  \<open>GaussianHMM(n_components=n, covariance_type="diag", n_iter=1000,
  random_state=random_state).fit(X, lengths)\<close>; \<open>hmm_score m X lengths\<close> is
  \<open>m.score(X, lengths)\<close>. \<open>None\<close> stands for any exception they raise.
\<close>

record 'p hmmlearn =
  hmm_fit :: "int \<Rightarrow> int \<Rightarrow> obs \<Rightarrow> int list \<Rightarrow> 'p option"
  hmm_score :: "'p gaussian_hmm \<Rightarrow> obs \<Rightarrow> int list \<Rightarrow> real option"

text \<open>The Python values that reach a \<open>.score(...)\<close> call in the two files.\<close>

datatype 'p pyobj = PyNone | PyInt int | PyModel "'p gaussian_hmm"

text \<open>
  \<open>obj.score(X, lengths)\<close>: \<open>None\<close> and an \<open>int\<close> have no attribute \<open>score\<close>.
\<close>

definition py_score :: "'p hmmlearn \<Rightarrow> 'p pyobj \<Rightarrow> obs \<Rightarrow> int list \<Rightarrow> error + real" where
  "py_score L obj X_arg lengths_arg =
     (case obj of
        PyModel m \<Rightarrow>
          (case hmm_score L m X_arg lengths_arg of
             None \<Rightarrow> Inl ScoreError
           | Some r \<Rightarrow> Inr r)
      | _ \<Rightarrow> Inl AttributeError)"

subsection \<open>Dictionaries and \<open>max\<close>\<close>

text \<open>
  A \<open>dict\<close> is an association list in insertion order with distinct keys.
  \<open>d[k]\<close> raises \<open>KeyError\<close> on a missing key; \<open>d[k] = v\<close> overwrites in place or
  appends.
\<close>

definition dict_get :: "('k \<times> 'v) list \<Rightarrow> 'k \<Rightarrow> error + 'v" where
  "dict_get d k = (case map_of d k of None \<Rightarrow> Inl KeyError | Some v \<Rightarrow> Inr v)"

fun dict_set :: "('k \<times> 'v) list \<Rightarrow> 'k \<Rightarrow> 'v \<Rightarrow> ('k \<times> 'v) list" where
  "dict_set [] k v = [(k, v)]"
| "dict_set ((k', v') # d) k v =
     (if k' = k then (k, v) # d else (k', v') # dict_set d k v)"

text \<open>
  \<open>max(d, key=lambda i: d[i])\<close>: CPython keeps the first item and replaces it only by a
  later item whose key value is strictly greater; an empty iterable raises
  \<open>ValueError\<close>. The iteration is over the dict's entries in insertion order, each key
  compared by the value stored with it, and the key is returned.
\<close>

fun py_max_loop :: "('v \<Rightarrow> 'v \<Rightarrow> bool) \<Rightarrow> ('k \<times> 'v) \<Rightarrow> ('k \<times> 'v) list \<Rightarrow> ('k \<times> 'v)" where
  "py_max_loop gt best [] = best"
| "py_max_loop gt best (x # xs) =
     (if gt (snd x) (snd best) then py_max_loop gt x xs else py_max_loop gt best xs)"

definition py_max :: "('v \<Rightarrow> 'v \<Rightarrow> bool) \<Rightarrow> ('k \<times> 'v) list \<Rightarrow> error + 'k" where
  "py_max gt d =
     (case d of
        [] \<Rightarrow> Inl ValueError
      | x # xs \<Rightarrow> Inr (fst (py_max_loop gt x xs)))"

section \<open>my_model_selectors.py\<close>

subsection \<open>ModelSelector\<close>

record selector =
  words :: "(string \<times> obs list) list"
  hwords :: "(string \<times> (obs \<times> int list)) list"
  sequences :: "obs list"
  X :: obs
  lengths :: "int list"
  this_word :: string
  n_constant :: int
  min_n_components :: int
  max_n_components :: int
  random_state :: int

text \<open>\<open>ModelSelector.__init__\<close>: the two lookups raise \<open>KeyError\<close> on an unknown word.\<close>

definition init_selector ::
  "(string \<times> obs list) list \<Rightarrow> (string \<times> (obs \<times> int list)) list \<Rightarrow> string \<Rightarrow>
   int \<Rightarrow> int \<Rightarrow> int \<Rightarrow> int \<Rightarrow> error + selector" where
  "init_selector all_word_sequences all_word_Xlengths word n_const min_n max_n seed =
     (case dict_get all_word_sequences word of
        Inl e \<Rightarrow> Inl e
      | Inr seqs \<Rightarrow>
          (case dict_get all_word_Xlengths word of
             Inl e \<Rightarrow> Inl e
           | Inr (x, ls) \<Rightarrow>
               Inr \<lparr>words = all_word_sequences, hwords = all_word_Xlengths,
                    sequences = seqs, X = x, lengths = ls, this_word = word,
                    n_constant = n_const, min_n_components = min_n,
                    max_n_components = max_n, random_state = seed\<rparr>))"

text \<open>
  \<open>base_model\<close>: the bare \<open>except\<close> turns every failure of the fit into \<open>None\<close>.
\<close>

definition base_model :: "'p hmmlearn \<Rightarrow> selector \<Rightarrow> int \<Rightarrow> 'p pyobj" where
  "base_model L s num_states =
     (case hmm_fit L num_states (random_state s) (X s) (lengths s) of
        Some p \<Rightarrow> PyModel \<lparr>n_components = num_states, params = p\<rparr>
      | None \<Rightarrow> PyNone)"

subsection \<open>SelectorConstant\<close>

definition select_constant :: "'p hmmlearn \<Rightarrow> selector \<Rightarrow> 'p pyobj" where
  "select_constant L s = base_model L s (n_constant s)"

subsection \<open>SelectorBIC\<close>

text \<open>
  \<open>model_list\<close> is keyed by the model objects themselves (hashed by identity), so every
  assignment \<open>model_list[hmm_model] = v\<close> of the loops adds a new entry at the end.
\<close>

definition scoreBIC :: "real \<Rightarrow> int \<Rightarrow> nat \<Rightarrow> real" where
  "scoreBIC logLike number_of_parameters number_of_data_points =
     (-2 * logLike) + (real_of_int number_of_parameters * ln (real number_of_data_points))"

text \<open>The body of the \<open>while\<close> loop of \<open>SelectorBIC.select\<close> (lines 88 to 94).\<close>

definition bic_step ::
  "'p hmmlearn \<Rightarrow> selector \<Rightarrow> int \<Rightarrow> ('p pyobj \<times> real) list \<Rightarrow> ('p pyobj \<times> real) list" where
  "bic_step L s n model_list =
     (let hmm_model = base_model L s n in
      case py_score L hmm_model (X s) (lengths s) of
        Inl e \<Rightarrow> model_list
      | Inr test_score \<Rightarrow>
          model_list @ [(hmm_model, scoreBIC test_score n (length (X s)))])"

function bic_loop ::
  "'p hmmlearn \<Rightarrow> selector \<Rightarrow> int \<Rightarrow> ('p pyobj \<times> real) list \<Rightarrow> ('p pyobj \<times> real) list" where
  "bic_loop L s n model_list =
     (if n \<ge> min_n_components s \<and> n \<le> max_n_components s
      then bic_loop L s (n + 1) (bic_step L s n model_list)
      else model_list)"
  by pat_completeness auto
termination
  by (relation "measure (\<lambda>(L, s, n, model_list). nat (max_n_components s + 1 - n))") auto

definition select_bic :: "'p hmmlearn \<Rightarrow> selector \<Rightarrow> error + 'p pyobj" where
  "select_bic L s =
     (let model_list = bic_loop L s (min_n_components s) [] in
      if length model_list = 0 then Inr (base_model L s (n_constant s))
      else py_max (\<lambda>a b. a > b) model_list)"

subsection \<open>SelectorDIC\<close>

text \<open>
  The \<open>for\<close> loop of \<open>calculate_avgscore_otherwords\<close>. The lookup
  \<open>self.hwords[word]\<close> stands outside the \<open>try\<close>, so its \<open>KeyError\<close> leaves the
  function; a failure of \<open>hmm_model.score\<close> only decrements \<open>num_words\<close>.
\<close>

fun avgscore_loop ::
  "'p hmmlearn \<Rightarrow> (string \<times> (obs \<times> int list)) list \<Rightarrow> string \<Rightarrow> 'p pyobj \<Rightarrow>
   string list \<Rightarrow> real \<Rightarrow> int \<Rightarrow> error + (real \<times> int)" where
  "avgscore_loop L hw except_this_word hmm_model [] average_score num_words =
     Inr (average_score, num_words)"
| "avgscore_loop L hw except_this_word hmm_model (word # rest) average_score num_words =
     (if word = except_this_word
      then avgscore_loop L hw except_this_word hmm_model rest average_score num_words
      else (case dict_get hw word of
              Inl e \<Rightarrow> Inl e
            | Inr (this_X, this_lengths) \<Rightarrow>
                (case py_score L hmm_model this_X this_lengths of
                   Inr score \<Rightarrow>
                     avgscore_loop L hw except_this_word hmm_model rest
                       (average_score + score) num_words
                 | Inl e \<Rightarrow>
                     avgscore_loop L hw except_this_word hmm_model rest
                       average_score (num_words - 1))))"

definition calculate_avgscore_otherwords ::
  "'p hmmlearn \<Rightarrow> selector \<Rightarrow> string \<Rightarrow> 'p pyobj \<Rightarrow> error + real" where
  "calculate_avgscore_otherwords L s except_this_word hmm_model =
     (case avgscore_loop L (hwords s) except_this_word hmm_model (map fst (words s))
             0 (int (length (words s)) - 1) of
        Inl e \<Rightarrow> Inl e
      | Inr (average_score, num_words) \<Rightarrow>
          Inr (if num_words > 0 then average_score / real_of_int num_words else 0))"

text \<open>
  The body of the \<open>while\<close> loop of \<open>SelectorDIC.select\<close> (lines 149 to 156). Line 152
  passes \<open>n_components\<close>, an \<open>int\<close>, as the \<open>hmm_model\<close> argument.
\<close>

definition dic_step ::
  "'p hmmlearn \<Rightarrow> selector \<Rightarrow> int \<Rightarrow> ('p pyobj \<times> real) list \<Rightarrow> ('p pyobj \<times> real) list" where
  "dic_step L s n model_list =
     (let hmm_model = base_model L s n in
      case py_score L hmm_model (X s) (lengths s) of
        Inl e \<Rightarrow> model_list
      | Inr this_word_score \<Rightarrow>
          (case calculate_avgscore_otherwords L s (this_word s) (PyInt n) of
             Inl e \<Rightarrow> model_list
           | Inr otherwords_avgscore \<Rightarrow>
               model_list @ [(hmm_model, this_word_score - otherwords_avgscore)]))"

function dic_loop ::
  "'p hmmlearn \<Rightarrow> selector \<Rightarrow> int \<Rightarrow> ('p pyobj \<times> real) list \<Rightarrow> ('p pyobj \<times> real) list" where
  "dic_loop L s n model_list =
     (if n \<ge> min_n_components s \<and> n \<le> max_n_components s
      then dic_loop L s (n + 1) (dic_step L s n model_list)
      else model_list)"
  by pat_completeness auto
termination
  by (relation "measure (\<lambda>(L, s, n, model_list). nat (max_n_components s + 1 - n))") auto

definition select_dic :: "'p hmmlearn \<Rightarrow> selector \<Rightarrow> error + 'p pyobj" where
  "select_dic L s =
     (let model_list = dic_loop L s (min_n_components s) [] in
      if length model_list = 0 then Inr (base_model L s (n_constant s))
      else py_max (\<lambda>a b. a > b) model_list)"

subsection \<open>SelectorCV\<close>

text \<open>
  Modelled from the spec: the fold partitioner \<open>KFold(n_splits).split\<close> of scikit-learn,
  which is not among the source files. Given a count of items and k it yields k
  (train indices, test indices) partitions covering all items with non-overlapping
  test partitions, and raises when the item count is below k. Without shuffling the
  test partitions are consecutive index ranges, the first \<open>n mod k\<close> of them one longer.
\<close>

definition fold_sizes :: "nat \<Rightarrow> nat \<Rightarrow> nat list" where
  "fold_sizes n_splits n_samples =
     map (\<lambda>i. n_samples div n_splits + (if i < n_samples mod n_splits then 1 else 0))
       [0..<n_splits]"

fun kfold_tests :: "nat \<Rightarrow> nat list \<Rightarrow> nat list list" where
  "kfold_tests current [] = []"
| "kfold_tests current (fold_size # rest) =
     [current..<current + fold_size] # kfold_tests (current + fold_size) rest"

definition kfold_split :: "nat \<Rightarrow> nat \<Rightarrow> error + (nat list \<times> nat list) list" where
  "kfold_split n_splits n_samples =
     (if n_splits > n_samples then Inl ValueError
      else Inr (map (\<lambda>test_idx. (filter (\<lambda>i. i \<notin> set test_idx) [0..<n_samples], test_idx))
                  (kfold_tests 0 (fold_sizes n_splits n_samples))))"

text \<open>
  Modelled from the spec: \<open>asl_utils.combine_sequences\<close>, which is not among the source
  files. It builds the concatenated observation matrix and the sequence-length list of
  the sequences an index list names; an index outside the list raises \<open>IndexError\<close>.
\<close>

definition combine_sequences :: "nat list \<Rightarrow> obs list \<Rightarrow> error + (obs \<times> int list)" where
  "combine_sequences split_index_list seqs =
     (if list_all (\<lambda>idx. idx < length seqs) split_index_list
      then (let sequences_fold = map (\<lambda>idx. seqs ! idx) split_index_list
            in Inr (concat sequences_fold, map (\<lambda>sublist. int (length sublist)) sequences_fold))
      else Inl IndexError)"

definition N_SPLITS :: nat where
  "N_SPLITS = 3"

text \<open>
  The \<open>for\<close> loop over the folds (lines 188 to 195). Line 190 assigns \<open>self.X\<close> and
  \<open>self.lengths\<close>, so the selector is threaded through and returned, also when an
  exception leaves the loop.
\<close>

fun cv_folds ::
  "'p hmmlearn \<Rightarrow> int \<Rightarrow> (nat list \<times> nat list) list \<Rightarrow> selector \<Rightarrow> 'p pyobj \<Rightarrow> real \<Rightarrow>
   (error + ('p pyobj \<times> real)) \<times> selector" where
  "cv_folds L n [] s hmm_model average_test_score =
     (Inr (hmm_model, average_test_score), s)"
| "cv_folds L n ((cv_train_idx, cv_test_idx) # rest) s hmm_model average_test_score =
     (case combine_sequences cv_train_idx (sequences s) of
        Inl e \<Rightarrow> (Inl e, s)
      | Inr (train_X, train_lengths) \<Rightarrow>
          (let s' = s\<lparr>X := train_X, lengths := train_lengths\<rparr>;
               hmm_model' = base_model L s' n
           in case combine_sequences cv_test_idx (sequences s') of
                Inl e \<Rightarrow> (Inl e, s')
              | Inr (test_X, test_lengths) \<Rightarrow>
                  (case py_score L hmm_model' test_X test_lengths of
                     Inl e \<Rightarrow> (Inl e, s')
                   | Inr test_score \<Rightarrow>
                       cv_folds L n rest s' hmm_model' (average_test_score + test_score))))"

text \<open>
  One pass of the \<open>while\<close> body (lines 186 to 197): the entry it adds to
  \<open>model_list\<close>, or the exception that leaves the \<open>try\<close>.
\<close>

definition cv_candidate ::
  "'p hmmlearn \<Rightarrow> selector \<Rightarrow> int \<Rightarrow> (error + ('p pyobj \<times> real)) \<times> selector" where
  "cv_candidate L s n =
     (case kfold_split N_SPLITS (length (sequences s)) of
        Inl e \<Rightarrow> (Inl e, s)
      | Inr folds \<Rightarrow>
          (case cv_folds L n folds s PyNone 0 of
             (Inl e, s') \<Rightarrow> (Inl e, s')
           | (Inr (hmm_model, average_test_score), s') \<Rightarrow>
               (Inr (hmm_model, average_test_score / real N_SPLITS), s')))"

lemma cv_folds_frame:
  "cv_folds L n folds s m a = (r, s') \<Longrightarrow>
     s' = s\<lparr>X := X s', lengths := lengths s'\<rparr>"
proof (induction folds arbitrary: s m a)
  case Nil
  then show ?case by auto
next
  case (Cons f folds)
  obtain tr te where f: "f = (tr, te)" by (cases f)
  show ?case
  proof (cases "combine_sequences tr (sequences s)")
    case (Inl e)
    with Cons.prems f show ?thesis by auto
  next
    case (Inr c)
    obtain tx tl where c: "c = (tx, tl)" by (cases c)
    let ?s1 = "s\<lparr>X := tx, lengths := tl\<rparr>"
    show ?thesis
    proof (cases "combine_sequences te (sequences ?s1)")
      case (Inl e)
      with Cons.prems f Inr c show ?thesis by (auto simp: Let_def)
    next
      case inr2: (Inr c2)
      obtain ux ul where c2: "c2 = (ux, ul)" by (cases c2)
      show ?thesis
      proof (cases "py_score L (base_model L ?s1 n) ux ul")
        case (Inl e)
        with Cons.prems f Inr c inr2 c2 show ?thesis by (auto simp: Let_def)
      next
        case inr3: (Inr sc)
        with Cons.prems f Inr c inr2 c2
        have "cv_folds L n folds ?s1 (base_model L ?s1 n) (a + sc) = (r, s')"
          by (simp add: Let_def)
        from Cons.IH[OF this] have "s' = ?s1\<lparr>X := X s', lengths := lengths s'\<rparr>" .
        then show ?thesis by simp
      qed
    qed
  qed
qed

lemma cv_candidate_frame:
  "cv_candidate L s n = (r, s') \<Longrightarrow> s' = s\<lparr>X := X s', lengths := lengths s'\<rparr>"
  unfolding cv_candidate_def
  by (auto split: sum.splits prod.splits dest: cv_folds_frame)

function cv_loop ::
  "'p hmmlearn \<Rightarrow> selector \<Rightarrow> int \<Rightarrow> ('p pyobj \<times> real) list \<Rightarrow>
   (error + ('p pyobj \<times> real) list) \<times> selector" where
  "cv_loop L s n model_list =
     (if n \<ge> min_n_components s \<and> n \<le> max_n_components s
      then (case cv_candidate L s n of
              (Inl e, s') \<Rightarrow> (Inl e, s')
            | (Inr entry, s') \<Rightarrow> cv_loop L s' (n + 1) (model_list @ [entry]))
      else (Inr model_list, s))"
  by pat_completeness auto
termination
proof (relation "measure (\<lambda>(L, s, n, model_list). nat (max_n_components s + 1 - n))")
  show "wf (measure (\<lambda>(L::'p hmmlearn, s, n, model_list::('p pyobj \<times> real) list).
              nat (max_n_components s + 1 - n)))"
    by simp
next
  fix L :: "'p hmmlearn" and s n and model_list :: "('p pyobj \<times> real) list"
    and x1 s' entry
  assume range: "min_n_components s \<le> n \<and> n \<le> max_n_components s"
    and c: "(x1, s') = cv_candidate L s n" and x1: "x1 = Inr entry"
  from c have "s' = s\<lparr>X := X s', lengths := lengths s'\<rparr>"
    using cv_candidate_frame[of L s n x1 s'] by simp
  then have "max_n_components s' = max_n_components s"
    by (metis select_convs(9) surjective update_convs(4) update_convs(5))
  with range show "((L, s', n + 1, model_list @ [entry]), (L, s, n, model_list))
      \<in> measure (\<lambda>(L, s, n, model_list). nat (max_n_components s + 1 - n))"
    by simp
qed

text \<open>
  \<open>SelectorCV.select\<close>: the \<open>try\<close> spans the whole \<open>while\<close> loop, so any exception
  inside it ends in the \<open>except\<close> branch, which fits the fallback on the current
  \<open>self.X\<close>, \<open>self.lengths\<close>. The final \<open>max\<close> stands outside the \<open>try\<close>.
\<close>

definition select_cv :: "'p hmmlearn \<Rightarrow> selector \<Rightarrow> (error + 'p pyobj) \<times> selector" where
  "select_cv L s =
     (case cv_loop L s (min_n_components s) [] of
        (Inl e, s') \<Rightarrow> (Inr (base_model L s' (n_constant s')), s')
      | (Inr model_list, s') \<Rightarrow> (py_max (\<lambda>a b. a > b) model_list, s'))"

section \<open>my_recognizer.py\<close>

text \<open>
  Modelled from the spec: \<open>asl_data.SinglesData\<close>, which is not among the source files:
  an ordered collection of (observations, sequence lengths) test items, indexed from 0.
  \<open>get_all_Xlengths\<close> returns the whole collection, \<open>get_item_Xlengths\<close> one item, with
  \<open>KeyError\<close> for an index that is not there.
\<close>

type_synonym singles_data = "(obs \<times> int list) list"

definition get_all_Xlengths :: "singles_data \<Rightarrow> (obs \<times> int list) list" where
  "get_all_Xlengths test_set = test_set"

definition get_item_Xlengths :: "singles_data \<Rightarrow> nat \<Rightarrow> error + (obs \<times> int list)" where
  "get_item_Xlengths test_set item =
     (if item < length test_set then Inr (test_set ! item) else Inl KeyError)"

text \<open>The inner \<open>for\<close> loop over \<open>models.items()\<close> (lines 31 to 36).\<close>

fun score_models ::
  "'p hmmlearn \<Rightarrow> (string \<times> 'p pyobj) list \<Rightarrow> obs \<Rightarrow> int list \<Rightarrow>
   (string \<times> pyfloat) list \<Rightarrow> (string \<times> pyfloat) list" where
  "score_models L [] current_X current_lengths d = d"
| "score_models L ((model_word, model) # rest) current_X current_lengths d =
     score_models L rest current_X current_lengths
       (dict_set d model_word
          (case py_score L model current_X current_lengths of
             Inr score \<Rightarrow> Fin score
           | Inl e \<Rightarrow> NegInf))"

text \<open>The outer \<open>for\<close> loop over \<open>word_id\<close> (lines 27 to 40).\<close>

fun recognize_loop ::
  "'p hmmlearn \<Rightarrow> (string \<times> 'p pyobj) list \<Rightarrow> singles_data \<Rightarrow> nat list \<Rightarrow>
   (string \<times> pyfloat) list list \<Rightarrow> string list \<Rightarrow>
   error + ((string \<times> pyfloat) list list \<times> string list)" where
  "recognize_loop L models test_set [] probabilities guesses =
     Inr (probabilities, guesses)"
| "recognize_loop L models test_set (word_id # rest) probabilities guesses =
     (case get_item_Xlengths test_set word_id of
        Inl e \<Rightarrow> Inl e
      | Inr (current_X, current_lengths) \<Rightarrow>
          (let test_word_probability_dict =
                 score_models L models current_X current_lengths []
           in case py_max float_gt test_word_probability_dict of
                Inl e \<Rightarrow> Inl e
              | Inr guess \<Rightarrow>
                  recognize_loop L models test_set rest
                    (probabilities @ [test_word_probability_dict]) (guesses @ [guess])))"

definition recognize ::
  "'p hmmlearn \<Rightarrow> (string \<times> 'p pyobj) list \<Rightarrow> singles_data \<Rightarrow>
   error + ((string \<times> pyfloat) list list \<times> string list)" where
  "recognize L models test_set =
     recognize_loop L models test_set [0..<length (get_all_Xlengths test_set)] [] []"

section \<open>Auxiliary facts\<close>

subsection \<open>Dictionaries and \<open>max\<close>\<close>

lemma dict_set_fresh: "k \<notin> fst ` set d \<Longrightarrow> dict_set d k v = d @ [(k, v)]"
  by (induction d) auto

lemma score_models_distinct:
  "distinct (map fst models) \<Longrightarrow> fst ` set d \<inter> fst ` set models = {} \<Longrightarrow>
   score_models L models cx cl d =
     d @ map (\<lambda>(w, m). (w, case py_score L m cx cl of Inr score \<Rightarrow> Fin score | Inl e \<Rightarrow> NegInf)) models"
proof (induction models arbitrary: d)
  case Nil
  then show ?case by simp
next
  case (Cons a models)
  obtain w m where a: "a = (w, m)" by (cases a)
  from Cons.prems a have fresh: "w \<notin> fst ` set d" by auto
  let ?v = "case py_score L m cx cl of Inr score \<Rightarrow> Fin score | Inl e \<Rightarrow> NegInf"
  have "fst ` set (d @ [(w, ?v)]) \<inter> fst ` set models = {}"
    using Cons.prems a by auto
  with Cons.IH[of "d @ [(w, ?v)]"] Cons.prems
  have "score_models L models cx cl (d @ [(w, ?v)]) = (d @ [(w, ?v)]) @ map (\<lambda>(w, m). (w, case py_score L m cx cl of Inr score \<Rightarrow> Fin score | Inl e \<Rightarrow> NegInf)) models"
    by simp
  then show ?case using a fresh by (simp add: dict_set_fresh)
qed

lemma dict_set_nonempty: "dict_set d k v \<noteq> []"
  by (cases d) (auto split: if_splits)

lemma score_models_nonempty:
  "models \<noteq> [] \<or> d \<noteq> [] \<Longrightarrow> score_models L models cx cl d \<noteq> []"
proof (induction models arbitrary: d)
  case Nil
  then show ?case by simp
next
  case (Cons a models)
  obtain w m where a: "a = (w, m)" by (cases a)
  show ?case using Cons.IH[of "dict_set d w (case py_score L m cx cl of Inr score \<Rightarrow> Fin score | Inl e \<Rightarrow> NegInf)"] a
    by (simp add: dict_set_nonempty)
qed

lemma py_max_loop_split:
  fixes gt :: "'v \<Rightarrow> 'v \<Rightarrow> bool" and b :: "'k \<times> 'v"
  assumes negtrans: "\<And>a b c. \<not> gt a b \<Longrightarrow> \<not> gt b c \<Longrightarrow> \<not> gt a c"
    and trans: "\<And>a b c. gt a b \<Longrightarrow> gt b c \<Longrightarrow> gt a c"
  shows "\<exists>pre post. b # xs = pre @ py_max_loop gt b xs # post \<and>
           (\<forall>x\<in>set pre. gt (snd (py_max_loop gt b xs)) (snd x)) \<and>
           (\<forall>x\<in>set post. \<not> gt (snd x) (snd (py_max_loop gt b xs)))"
proof (induction xs arbitrary: b)
  case Nil
  show ?case by (intro exI[of _ "[]"]) simp
next
  case (Cons x xs)
  show ?case
  proof (cases "gt (snd x) (snd b)")
    case True
    from Cons.IH[of x] obtain pre post where
      sp: "x # xs = pre @ py_max_loop gt x xs # post"
      and lo: "\<forall>y\<in>set pre. gt (snd (py_max_loop gt x xs)) (snd y)"
      and hi: "\<forall>y\<in>set post. \<not> gt (snd y) (snd (py_max_loop gt x xs))" by blast
    let ?e = "py_max_loop gt x xs"
    have eb: "gt (snd ?e) (snd b)"
    proof (cases pre)
      case Nil
      with sp have "x = ?e" by (metis append_Nil list.inject)
      with True show ?thesis by metis
    next
      case (Cons p ps)
      with sp have "p = x" by (metis append_Cons list.inject)
      with Cons lo have "gt (snd ?e) (snd x)" by (metis list.set_intros(1))
      with True show ?thesis using trans by blast
    qed
    have l: "py_max_loop gt b (x # xs) = ?e" using True by simp
    have A: "b # x # xs = (b # pre) @ ?e # post" using sp by (metis append_Cons)
    have B: "\<forall>y\<in>set (b # pre). gt (snd ?e) (snd y)" using lo eb by (metis set_ConsD)
    show ?thesis unfolding l using A B hi by blast
  next
    case False
    from Cons.IH[of b] obtain pre post where
      sp: "b # xs = pre @ py_max_loop gt b xs # post"
      and lo: "\<forall>y\<in>set pre. gt (snd (py_max_loop gt b xs)) (snd y)"
      and hi: "\<forall>y\<in>set post. \<not> gt (snd y) (snd (py_max_loop gt b xs))" by blast
    let ?e = "py_max_loop gt b xs"
    have l: "py_max_loop gt b (x # xs) = ?e" using False by simp
    show ?thesis
    proof (cases pre)
      case Nil
      with sp have e: "b = ?e" and xs: "xs = post"
        by (metis append_Nil list.inject)+
      have nx: "\<not> gt (snd x) (snd ?e)" using False e by metis
      have A: "b # x # xs = [] @ ?e # (x # post)" using e xs by (metis append_Nil)
      have B: "\<forall>y\<in>set ([]::('k \<times> 'v) list). gt (snd ?e) (snd y)" by simp
      have C: "\<forall>y\<in>set (x # post). \<not> gt (snd y) (snd ?e)" using hi nx by (metis set_ConsD)
      show ?thesis unfolding l using A B C by blast
    next
      case (Cons p ps)
      with sp have p: "p = b" and xs: "xs = ps @ ?e # post"
        by (metis append_Cons list.inject)+
      from Cons lo p have eb: "gt (snd ?e) (snd b)" by (metis list.set_intros(1))
      have ex: "gt (snd ?e) (snd x)"
        using negtrans[of "snd ?e" "snd x" "snd b"] False eb by blast
      have A: "b # x # xs = (b # x # ps) @ ?e # post" using xs by (metis append_Cons)
      have B: "\<forall>y\<in>set (b # x # ps). gt (snd ?e) (snd y)"
        using lo Cons p ex eb by (metis set_ConsD list.set_intros(2))
      show ?thesis unfolding l using A B hi by blast
    qed
  qed
qed

lemma py_max_nonempty: "d \<noteq> [] \<Longrightarrow> \<exists>g. py_max gt d = Inr g"
  by (cases d) (auto simp: py_max_def)

lemma py_max_mem: "py_max gt d = Inr g \<Longrightarrow> g \<in> fst ` set d"
proof -
  have loop: "py_max_loop gt b xs \<in> set (b # xs)" for b :: "'a \<times> 'b" and xs
    by (induction xs arbitrary: b) (auto split: if_splits)
  assume "py_max gt d = Inr g"
  then obtain x xs where "d = x # xs" and "g = fst (py_max_loop gt x xs)"
    by (cases d) (auto simp: py_max_def)
  with loop[of x xs] show ?thesis by (metis imageI)
qed

lemma float_gt_negtrans: "\<not> float_gt a b \<Longrightarrow> \<not> float_gt b c \<Longrightarrow> \<not> float_gt a c"
  by (cases a; cases b; cases c) auto

lemma float_gt_trans: "float_gt a b \<Longrightarrow> float_gt b c \<Longrightarrow> float_gt a c"
  by (cases a; cases b; cases c) auto

lemma float_gt_asym: "float_gt a b \<Longrightarrow> \<not> float_gt b a"
  by (cases a; cases b) auto

lemma py_max_float_first:
  assumes "py_max float_gt d = Inr g"
  shows "\<exists>pre e post. d = pre @ e # post \<and> g = fst e \<and>
           (\<forall>x\<in>set d. \<not> float_gt (snd x) (snd e)) \<and>
           (\<forall>x\<in>set pre. float_gt (snd e) (snd x))"
proof -
  from assms obtain b xs where d: "d = b # xs" and g: "g = fst (py_max_loop float_gt b xs)"
    by (cases d) (auto simp: py_max_def)
  let ?e = "py_max_loop float_gt b xs"
  from py_max_loop_split[of float_gt b xs] float_gt_negtrans float_gt_trans
  obtain pre post where sp: "b # xs = pre @ ?e # post"
    and lo: "\<forall>x\<in>set pre. float_gt (snd ?e) (snd x)"
    and hi: "\<forall>x\<in>set post. \<not> float_gt (snd x) (snd ?e)" by blast
  have self: "\<not> float_gt (snd ?e) (snd ?e)" using float_gt_asym by blast
  have "\<forall>x\<in>set (pre @ ?e # post). \<not> float_gt (snd x) (snd ?e)"
    using lo hi self float_gt_asym by auto
  with sp have "\<forall>x\<in>set d. \<not> float_gt (snd x) (snd ?e)" using d by metis
  with sp lo d g show ?thesis by blast
qed

subsection \<open>The recogniser's loops\<close>

lemma recognize_loop_ok:
  assumes "models \<noteq> []" and "\<forall>i\<in>set ids. i < length test_set"
  shows "\<exists>gs. recognize_loop L models test_set ids P G =
             Inr (P @ map (\<lambda>i. score_models L models (fst (test_set ! i)) (snd (test_set ! i)) []) ids,
                  G @ gs) \<and>
           length gs = length ids \<and>
           (\<forall>k<length ids.
              py_max float_gt
                (score_models L models (fst (test_set ! (ids ! k))) (snd (test_set ! (ids ! k))) [])
              = Inr (gs ! k))"
  using assms(2)
proof (induction ids arbitrary: P G)
  case Nil
  then show ?case by simp
next
  case (Cons i ids)
  let ?d = "score_models L models (fst (test_set ! i)) (snd (test_set ! i)) []"
  from Cons.prems have i: "i < length test_set" by simp
  have "?d \<noteq> []" using assms(1) by (simp add: score_models_nonempty)
  then obtain g where g: "py_max float_gt ?d = Inr g" using py_max_nonempty by blast
  from Cons.prems have "\<forall>j\<in>set ids. j < length test_set" by simp
  from Cons.IH[OF this, of "P @ [?d]" "G @ [g]"] obtain gs where
    r: "recognize_loop L models test_set ids (P @ [?d]) (G @ [g]) =
          Inr ((P @ [?d]) @ map (\<lambda>i. score_models L models (fst (test_set ! i)) (snd (test_set ! i)) []) ids,
               (G @ [g]) @ gs)"
    and l: "length gs = length ids"
    and m: "\<forall>k<length ids.
              py_max float_gt
                (score_models L models (fst (test_set ! (ids ! k))) (snd (test_set ! (ids ! k))) [])
              = Inr (gs ! k)" by blast
  have step: "recognize_loop L models test_set (i # ids) P G =
      recognize_loop L models test_set ids (P @ [?d]) (G @ [g])"
    using i g by (simp add: get_item_Xlengths_def case_prod_beta Let_def)
  have "\<forall>k<length (i # ids).
              py_max float_gt
                (score_models L models (fst (test_set ! ((i # ids) ! k))) (snd (test_set ! ((i # ids) ! k))) [])
              = Inr ((g # gs) ! k)"
    using g m by (auto simp: nth_Cons split: nat.splits)
  with step r l show ?case
    by (intro exI[of _ "g # gs"]) simp
qed

lemma recognize_ok:
  assumes "models \<noteq> []"
  shows "\<exists>gs. recognize L models test_set =
             Inr (map (\<lambda>item. score_models L models (fst item) (snd item) []) test_set, gs) \<and>
           length gs = length test_set \<and>
           (\<forall>k<length test_set.
              py_max float_gt
                (score_models L models (fst (test_set ! k)) (snd (test_set ! k)) [])
              = Inr (gs ! k))"
proof -
  have ids: "\<forall>i\<in>set [0..<length test_set]. i < length test_set" by simp
  have m: "map (\<lambda>i. score_models L models (fst (test_set ! i)) (snd (test_set ! i)) []) [0..<length test_set]
      = map (\<lambda>item. score_models L models (fst item) (snd item) []) test_set"
    by (rule nth_equalityI) simp_all
  from recognize_loop_ok[OF assms ids, of L "[]" "[]"] m
  show ?thesis by (simp add: recognize_def get_all_Xlengths_def)
qed

lemma recognize_no_models:
  "test_set \<noteq> [] \<Longrightarrow> recognize L [] test_set = Inl ValueError"
proof -
  assume "test_set \<noteq> []"
  then have "[0..<length test_set] = 0 # [1..<length test_set]"
    by (simp add: upt_rec)
  moreover have "0 < length test_set" using \<open>test_set \<noteq> []\<close> by simp
  ultimately show ?thesis
    by (simp add: recognize_def get_all_Xlengths_def get_item_Xlengths_def py_max_def
        case_prod_beta)
qed

section \<open>Example inputs\<close>

text \<open>
  A library whose fit always succeeds and whose score is minus the state count, and a
  word-to-model mapping in which the first word has no model (\<open>None\<close>) and the other
  two tie.
\<close>

definition demo_lib :: "unit hmmlearn" where
  "demo_lib = \<lparr>hmm_fit = (\<lambda>n seed x ls. Some ()),
               hmm_score = (\<lambda>m x ls. Some (- real_of_int (n_components m)))\<rparr>"

definition demo_models :: "(string \<times> unit pyobj) list" where
  "demo_models = [(''UP'', PyNone),
                  (''DOWN'', PyModel \<lparr>n_components = 2, params = ()\<rparr>),
                  (''LEFT'', PyModel \<lparr>n_components = 2, params = ()\<rparr>)]"

definition demo_test_set :: singles_data where
  "demo_test_set = [([[0], [1]], [2])]"

section \<open>The recogniser\<close>

lemma demo_score_models:
  "score_models demo_lib demo_models [[0], [1]] [2] [] =
     [(''UP'', NegInf), (''DOWN'', Fin (- 2)), (''LEFT'', Fin (- 2))]"
  by (simp add: demo_models_def demo_lib_def py_score_def)

lemma demo_recognize:
  "recognize demo_lib demo_models demo_test_set =
     Inr ([[(''UP'', NegInf), (''DOWN'', Fin (- 2)), (''LEFT'', Fin (- 2))]], [''DOWN''])"
  by (simp add: demo_test_set_def recognize_def get_all_Xlengths_def get_item_Xlengths_def
      demo_score_models py_max_def)

lemma demo_models_distinct: "distinct (map fst demo_models)"
  by (simp add: demo_models_def)

lemma demo_models_nonempty: "demo_models \<noteq> []"
  by (simp add: demo_models_def)


text \<open>
  C4, as amended. For a model mapping (a dictionary, so with distinct words) that is not
  empty, or an empty test set, \<open>recognize\<close> returns a probabilities list and a guesses
  list, both as long as the test set and in test-item order; each score map is the one
  computed for its item, has one entry per word of the mapping in the mapping's order,
  and each guess is a word of the mapping.
\<close>

theorem recognize_output_shape:
  assumes "distinct (map fst models)" and "models \<noteq> [] \<or> test_set = []"
  shows "\<exists>probabilities guesses.
           recognize L models test_set = Inr (probabilities, guesses) \<and>
           length probabilities = length test_set \<and>
           length guesses = length test_set \<and>
           (\<forall>i<length test_set.
              probabilities ! i =
                score_models L models (fst (test_set ! i)) (snd (test_set ! i)) [] \<and>
              length (probabilities ! i) = length models \<and>
              map fst (probabilities ! i) = map fst models \<and>
              guesses ! i \<in> set (map fst models))"
proof (cases "models = []")
  case True
  with assms(2) have "test_set = []" by simp
  then show ?thesis by (simp add: recognize_def get_all_Xlengths_def)
next
  case False
  from recognize_ok[OF False, of L test_set] obtain gs where
    r: "recognize L models test_set =
          Inr (map (\<lambda>item. score_models L models (fst item) (snd item) []) test_set, gs)"
    and l: "length gs = length test_set"
    and g: "\<forall>k<length test_set.
              py_max float_gt
                (score_models L models (fst (test_set ! k)) (snd (test_set ! k)) [])
              = Inr (gs ! k)" by blast
  have keys: "map fst (score_models L models cx cl []) = map fst models" for cx cl
    using score_models_distinct[OF assms(1), of "[]" L cx cl]
    by (simp add: case_prod_beta comp_def)
  have "gs ! k \<in> set (map fst models)" if "k < length test_set" for k
  proof -
    from g that have "py_max float_gt
        (score_models L models (fst (test_set ! k)) (snd (test_set ! k)) []) = Inr (gs ! k)"
      by simp
    from py_max_mem[OF this] keys[of "fst (test_set ! k)" "snd (test_set ! k)"]
    show ?thesis by (metis list.set_map)
  qed
  moreover have "length (score_models L models cx cl []) = length models" for cx cl
    using keys[of cx cl] by (metis length_map)
  ultimately show ?thesis using r l keys by simp
qed

theorem recognize_output_shape_witness:
  "distinct (map fst demo_models) \<and> demo_models \<noteq> [] \<and>
   recognize demo_lib demo_models demo_test_set =
     Inr ([[(''UP'', NegInf), (''DOWN'', Fin (- 2)), (''LEFT'', Fin (- 2))]], [''DOWN''])"
proof -
  have h: "demo_models \<noteq> [] \<or> demo_test_set = []"
    using demo_models_nonempty by simp
  from recognize_output_shape[OF demo_models_distinct h, of demo_lib]
  have "\<exists>result. recognize demo_lib demo_models demo_test_set = Inr result" by blast
  then show ?thesis
    using demo_models_distinct demo_models_nonempty demo_recognize by simp
qed

theorem recognize_empty_mapping_counterexample:
  "recognize demo_lib [] demo_test_set = Inl ValueError"
  by (simp add: demo_test_set_def recognize_def get_all_Xlengths_def
      get_item_Xlengths_def py_max_def)

text \<open>
  C5. For a non-empty model mapping, every item's score map holds, for every word of
  the mapping in order, the model's score on the item, or negative infinity when that
  scoring fails (the remaining words are still scored); the item's guess is the key of
  an entry that no entry exceeds, and that strictly exceeds every entry before it.
\<close>

theorem recognize_scores_and_guess:
  assumes "distinct (map fst models)" and "models \<noteq> []"
  shows "\<exists>probabilities guesses.
           recognize L models test_set = Inr (probabilities, guesses) \<and>
           length probabilities = length test_set \<and>
           length guesses = length test_set \<and>
           (\<forall>i<length test_set.
              probabilities ! i =
                map (\<lambda>(model_word, model).
                       (model_word,
                        case py_score L model (fst (test_set ! i)) (snd (test_set ! i)) of
                          Inr score \<Rightarrow> Fin score
                        | Inl e \<Rightarrow> NegInf)) models \<and>
              (\<exists>pre e post.
                 probabilities ! i = pre @ e # post \<and> guesses ! i = fst e \<and>
                 (\<forall>x\<in>set (probabilities ! i). \<not> float_gt (snd x) (snd e)) \<and>
                 (\<forall>x\<in>set pre. float_gt (snd e) (snd x))))"
proof -
  let ?P = "map (\<lambda>item. score_models L models (fst item) (snd item) []) test_set"
  from recognize_ok[OF assms(2), of L test_set] obtain gs where
    r: "recognize L models test_set = Inr (?P, gs)"
    and l: "length gs = length test_set"
    and g: "\<forall>k<length test_set.
              py_max float_gt
                (score_models L models (fst (test_set ! k)) (snd (test_set ! k)) [])
              = Inr (gs ! k)" by blast
  have per_item: "?P ! i =
         map (\<lambda>(model_word, model).
                (model_word,
                 case py_score L model (fst (test_set ! i)) (snd (test_set ! i)) of
                   Inr score \<Rightarrow> Fin score
                 | Inl e \<Rightarrow> NegInf)) models \<and>
         (\<exists>pre e post.
            ?P ! i = pre @ e # post \<and> gs ! i = fst e \<and>
            (\<forall>x\<in>set (?P ! i). \<not> float_gt (snd x) (snd e)) \<and>
            (\<forall>x\<in>set pre. float_gt (snd e) (snd x)))"
    if i: "i < length test_set" for i
  proof -
    let ?d = "score_models L models (fst (test_set ! i)) (snd (test_set ! i)) []"
    have P: "?P ! i = ?d" using i by simp
    have d: "?d = map (\<lambda>(model_word, model).
                (model_word,
                 case py_score L model (fst (test_set ! i)) (snd (test_set ! i)) of
                   Inr score \<Rightarrow> Fin score
                 | Inl e \<Rightarrow> NegInf)) models"
      using score_models_distinct[OF assms(1), of "[]" L] by simp
    from g i have "py_max float_gt ?d = Inr (gs ! i)" by blast
    from py_max_float_first[OF this] have
      "\<exists>pre e post.
            ?d = pre @ e # post \<and> gs ! i = fst e \<and>
            (\<forall>x\<in>set ?d. \<not> float_gt (snd x) (snd e)) \<and>
            (\<forall>x\<in>set pre. float_gt (snd e) (snd x))" .
    then show ?thesis unfolding P using d by (rule conjI[rotated])
  qed
  have len: "length ?P = length test_set" by simp
  from r len l per_item show ?thesis by blast
qed

theorem recognize_scores_and_guess_witness:
  "distinct (map fst demo_models) \<and> demo_models \<noteq> [] \<and>
   py_score demo_lib PyNone [[0], [1]] [2] = Inl AttributeError \<and>
   recognize demo_lib demo_models demo_test_set =
     Inr ([[(''UP'', NegInf), (''DOWN'', Fin (- 2)), (''LEFT'', Fin (- 2))]], [''DOWN''])"
proof -
  from recognize_scores_and_guess[OF demo_models_distinct demo_models_nonempty,
      of demo_lib demo_test_set]
  have "\<exists>result. recognize demo_lib demo_models demo_test_set = Inr result" by blast
  moreover have "py_score demo_lib PyNone [[0], [1]] [2] = Inl AttributeError"
    by (simp add: py_score_def)
  ultimately show ?thesis
    using demo_models_distinct demo_models_nonempty demo_recognize by simp
qed

text \<open>
  C10. On a non-empty test set \<open>recognize\<close> returns a result exactly when the model
  mapping has at least one word; with an empty mapping the \<open>max\<close> over the empty score
  map of the first item raises \<open>ValueError\<close>.
\<close>

theorem recognize_needs_a_model:
  assumes "test_set \<noteq> []"
  shows "((\<exists>result. recognize L models test_set = Inr result) \<longleftrightarrow> models \<noteq> []) \<and>
         recognize L [] test_set = Inl ValueError"
proof -
  have "\<exists>result. recognize L models test_set = Inr result" if "models \<noteq> []"
    using recognize_ok[OF that, of L test_set] by blast
  moreover have "recognize L [] test_set = Inl ValueError"
    using assms by (rule recognize_no_models)
  ultimately show ?thesis by auto
qed

theorem recognize_needs_a_model_witness:
  "demo_test_set \<noteq> [] \<and>
   recognize demo_lib [] demo_test_set = Inl ValueError \<and>
   (\<exists>result. recognize demo_lib demo_models demo_test_set = Inr result)"
proof -
  have h: "demo_test_set \<noteq> []" by (simp add: demo_test_set_def)
  from recognize_needs_a_model[OF h, of demo_lib demo_models] demo_models_nonempty
  have "\<exists>result. recognize demo_lib demo_models demo_test_set = Inr result"
    and "recognize demo_lib [] demo_test_set = Inl ValueError" by blast+
  with h show ?thesis by blast
qed

section \<open>The selectors\<close>

declare bic_loop.simps [simp del] dic_loop.simps [simp del] cv_loop.simps [simp del]

subsection \<open>What the loops record\<close>

lemma base_model_cases:
  "base_model L s k = PyNone \<or> (\<exists>p. base_model L s k = PyModel \<lparr>n_components = k, params = p\<rparr>)"
  by (simp add: base_model_def split: option.splits)

lemma py_score_model: "py_score L obj x ls = Inr r \<Longrightarrow> \<exists>m. obj = PyModel m"
  by (cases obj) (simp_all add: py_score_def)

text \<open>An entry of \<open>model_list\<close> for a candidate of the range.\<close>

definition candidate_entry :: "selector \<Rightarrow> 'p pyobj \<times> real \<Rightarrow> bool" where
  "candidate_entry s e =
     (case fst e of
        PyModel m \<Rightarrow> min_n_components s \<le> n_components m \<and> n_components m \<le> max_n_components s
      | _ \<Rightarrow> False)"

lemma candidate_entryI:
  "min_n_components s \<le> k \<Longrightarrow> k \<le> max_n_components s \<Longrightarrow>
   candidate_entry s (PyModel \<lparr>n_components = k, params = p\<rparr>, v)"
  by (simp add: candidate_entry_def)

lemma bic_step_entries:
  assumes "list_all (candidate_entry s) model_list"
    and "min_n_components s \<le> n" and "n \<le> max_n_components s"
  shows "list_all (candidate_entry s) (bic_step L s n model_list)"
proof (cases "py_score L (base_model L s n) (X s) (lengths s)")
  case (Inl e)
  with assms(1) show ?thesis by (simp add: bic_step_def)
next
  case (Inr r)
  from py_score_model[OF this] base_model_cases[of L s n]
  obtain p where "base_model L s n = PyModel \<lparr>n_components = n, params = p\<rparr>" by auto
  with Inr assms show ?thesis by (simp add: bic_step_def candidate_entryI)
qed

lemma bic_loop_entries:
  "list_all (candidate_entry s) model_list \<Longrightarrow>
   list_all (candidate_entry s) (bic_loop L s n model_list)"
proof (induction L s n model_list rule: bic_loop.induct)
  case (1 L s n model_list)
  show ?case
  proof (cases "min_n_components s \<le> n \<and> n \<le> max_n_components s")
    case True
    with "1.prems" have "list_all (candidate_entry s) (bic_step L s n model_list)"
      by (simp add: bic_step_entries)
    from "1.IH"[OF True this] True show ?thesis
      by (subst bic_loop.simps) simp
  next
    case False
    with "1.prems" show ?thesis by (subst bic_loop.simps) auto
  qed
qed

lemma dic_step_entries:
  assumes "list_all (candidate_entry s) model_list"
    and "min_n_components s \<le> n" and "n \<le> max_n_components s"
  shows "list_all (candidate_entry s) (dic_step L s n model_list)"
proof (cases "py_score L (base_model L s n) (X s) (lengths s)")
  case (Inl e)
  with assms(1) show ?thesis by (simp add: dic_step_def)
next
  case (Inr r)
  from py_score_model[OF this] base_model_cases[of L s n]
  obtain p where "base_model L s n = PyModel \<lparr>n_components = n, params = p\<rparr>" by auto
  with Inr assms show ?thesis
    by (simp add: dic_step_def candidate_entryI split: sum.splits)
qed

lemma dic_loop_entries:
  "list_all (candidate_entry s) model_list \<Longrightarrow>
   list_all (candidate_entry s) (dic_loop L s n model_list)"
proof (induction L s n model_list rule: dic_loop.induct)
  case (1 L s n model_list)
  show ?case
  proof (cases "min_n_components s \<le> n \<and> n \<le> max_n_components s")
    case True
    with "1.prems" have "list_all (candidate_entry s) (dic_step L s n model_list)"
      by (simp add: dic_step_entries)
    from "1.IH"[OF True this] True show ?thesis
      by (subst dic_loop.simps) simp
  next
    case False
    with "1.prems" show ?thesis by (subst dic_loop.simps) auto
  qed
qed

lemma py_max_candidate:
  assumes "list_all (candidate_entry s) model_list" and "py_max gt model_list = Inr obj"
  shows "\<exists>m. obj = PyModel m \<and> min_n_components s \<le> n_components m \<and>
             n_components m \<le> max_n_components s"
proof -
  from py_max_mem[OF assms(2)] obtain e where e: "e \<in> set model_list" and o: "obj = fst e"
    by auto
  from assms(1) e have "candidate_entry s e" by (simp add: list_all_iff)
  with o show ?thesis by (cases "fst e") (auto simp: candidate_entry_def)
qed

subsection \<open>The fold partitioner\<close>

lemma sum_fold_sizes_aux:
  "sum_list (map (\<lambda>i. c + (if i < r then 1 else 0)) [0..<k]) = k * c + min r k"
  by (induction k) auto

lemma sum_fold_sizes: "0 < k \<Longrightarrow> sum_list (fold_sizes k n) = n"
proof -
  assume k: "0 < k"
  then have "n mod k < k" by simp
  then have "min (n mod k) k = n mod k" by simp
  then have "sum_list (fold_sizes k n) = k * (n div k) + n mod k"
    unfolding fold_sizes_def by (simp add: sum_fold_sizes_aux)
  then show ?thesis by simp
qed

lemma kfold_tests_bound:
  "t \<in> set (kfold_tests c sizes) \<Longrightarrow> i \<in> set t \<Longrightarrow> i < c + sum_list sizes"
proof (induction sizes arbitrary: c)
  case Nil
  then show ?case by simp
next
  case (Cons a sizes)
  from Cons.prems(1) consider "t = [c..<c + a]" | "t \<in> set (kfold_tests (c + a) sizes)"
    by auto
  then show ?case
  proof cases
    case 1
    with Cons.prems(2) show ?thesis by simp
  next
    case 2
    from Cons.IH[OF this Cons.prems(2)] show ?thesis by simp
  qed
qed

lemma length_kfold_tests: "length (kfold_tests c sizes) = length sizes"
  by (induction sizes arbitrary: c) auto

lemma kfold_split_small: "n < k \<Longrightarrow> kfold_split k n = Inl ValueError"
  by (simp add: kfold_split_def)

lemma kfold_split_length:
  "kfold_split k n = Inr folds \<Longrightarrow> length folds = k"
  by (auto simp: kfold_split_def length_kfold_tests fold_sizes_def split: if_splits)

lemma kfold_split_in_range:
  assumes "kfold_split k n = Inr folds" and "(tr, te) \<in> set folds"
  shows "list_all (\<lambda>i. i < n) tr \<and> list_all (\<lambda>i. i < n) te"
proof -
  from assms(1) have folds:
    "folds = map (\<lambda>test_idx. (filter (\<lambda>i. i \<notin> set test_idx) [0..<n], test_idx))
               (kfold_tests 0 (fold_sizes k n))"
    by (simp add: kfold_split_def split: if_splits)
  with assms(2) have tr: "tr = filter (\<lambda>i. i \<notin> set te) [0..<n]"
    and te: "te \<in> set (kfold_tests 0 (fold_sizes k n))" by auto
  have "k \<noteq> 0"
  proof
    assume "k = 0"
    with te show False by (simp add: fold_sizes_def)
  qed
  then have "sum_list (fold_sizes k n) = n" by (simp add: sum_fold_sizes)
  with kfold_tests_bound[OF te] have "\<forall>i\<in>set te. i < n" by auto
  with tr show ?thesis by (auto simp: list_all_iff)
qed

lemma kfold_split_ok: "k \<le> n \<Longrightarrow> \<exists>folds. kfold_split k n = Inr folds"
  by (simp add: kfold_split_def)

lemma combine_sequences_ok:
  "list_all (\<lambda>i. i < length seqs) idx \<Longrightarrow>
   combine_sequences idx seqs =
     Inr (concat (map (\<lambda>i. seqs ! i) idx), map (\<lambda>i. int (length (seqs ! i))) idx)"
  by (simp add: combine_sequences_def comp_def)

subsection \<open>The cross-validation loops\<close>

lemma frame_fields:
  assumes "s' = s\<lparr>X := x, lengths := ls\<rparr>"
  shows "min_n_components s' = min_n_components s" "max_n_components s' = max_n_components s"
    "n_constant s' = n_constant s" "sequences s' = sequences s"
    "random_state s' = random_state s" "words s' = words s" "hwords s' = hwords s"
    "this_word s' = this_word s"
  using assms by simp_all

lemma candidate_entry_frame:
  "s' = s\<lparr>X := x, lengths := ls\<rparr> \<Longrightarrow> candidate_entry s' e = candidate_entry s e"
  by (cases "fst e") (simp_all add: candidate_entry_def)

lemma cv_folds_model:
  "cv_folds L n folds s m a = (Inr (m', a'), s') \<Longrightarrow>
   (folds = [] \<and> m' = m) \<or> (\<exists>p. m' = PyModel \<lparr>n_components = n, params = p\<rparr>)"
proof (induction folds arbitrary: s m a)
  case Nil
  then show ?case by simp
next
  case (Cons f folds)
  obtain tr te where f: "f = (tr, te)" by (cases f)
  from Cons.prems f obtain tx tl where c1: "combine_sequences tr (sequences s) = Inr (tx, tl)"
    by (cases "combine_sequences tr (sequences s)") auto
  let ?s1 = "s\<lparr>X := tx, lengths := tl\<rparr>"
  from Cons.prems f c1 obtain ux ul where
    c2: "combine_sequences te (sequences ?s1) = Inr (ux, ul)"
    by (cases "combine_sequences te (sequences ?s1)") (auto simp: Let_def)
  from Cons.prems f c1 c2 obtain sc where
    sc: "py_score L (base_model L ?s1 n) ux ul = Inr sc"
    by (cases "py_score L (base_model L ?s1 n) ux ul") (auto simp: Let_def)
  from py_score_model[OF sc] base_model_cases[of L ?s1 n]
  obtain p where p: "base_model L ?s1 n = PyModel \<lparr>n_components = n, params = p\<rparr>" by auto
  from Cons.prems f c1 c2 sc
  have "cv_folds L n folds ?s1 (base_model L ?s1 n) (a + sc) = (Inr (m', a'), s')"
    by (simp add: Let_def)
  from Cons.IH[OF this] p show ?case by auto
qed

lemma cv_candidate_entry:
  assumes "cv_candidate L s n = (Inr e, s')"
    and "min_n_components s \<le> n" and "n \<le> max_n_components s"
  shows "candidate_entry s e"
proof -
  from assms(1) obtain folds where k: "kfold_split N_SPLITS (length (sequences s)) = Inr folds"
    by (cases "kfold_split N_SPLITS (length (sequences s))") (auto simp: cv_candidate_def)
  from kfold_split_length[OF k] have ne: "folds \<noteq> []" by (auto simp: N_SPLITS_def)
  from assms(1) k obtain m a where
    r: "cv_folds L n folds s PyNone 0 = (Inr (m, a), s')" and e: "e = (m, a / real N_SPLITS)"
    by (auto simp: cv_candidate_def split: prod.splits sum.splits)
  from cv_folds_model[OF r] ne obtain p where "m = PyModel \<lparr>n_components = n, params = p\<rparr>"
    by auto
  with e assms(2,3) show ?thesis by (simp add: candidate_entryI)
qed

lemma cv_loop_frame:
  "cv_loop L s n model_list = (r, s') \<Longrightarrow> s' = s\<lparr>X := X s', lengths := lengths s'\<rparr>"
proof (induction L s n model_list rule: cv_loop.induct)
  case (1 L s n model_list)
  show ?case
  proof (cases "min_n_components s \<le> n \<and> n \<le> max_n_components s")
    case False
    with "1.prems" show ?thesis by (subst (asm) cv_loop.simps) auto
  next
    case True
    obtain x s1 where c: "cv_candidate L s n = (x, s1)" by (cases "cv_candidate L s n")
    from cv_candidate_frame[OF c] have f1: "s1 = s\<lparr>X := X s1, lengths := lengths s1\<rparr>" .
    show ?thesis
    proof (cases x)
      case (Inl e)
      with "1.prems" True c have "s' = s1" by (subst (asm) cv_loop.simps) simp
      with f1 show ?thesis by simp
    next
      case (Inr entry)
      with "1.prems" True c
      have "cv_loop L s1 (n + 1) (model_list @ [entry]) = (r, s')"
        by (subst (asm) cv_loop.simps) simp
      from "1.IH"[OF True c[symmetric] Inr this]
      have "s' = s1\<lparr>X := X s', lengths := lengths s'\<rparr>" .
      with f1 show ?thesis by (metis (no_types) frame_fields surjective update_convs(4,5) select_convs)
    qed
  qed
qed

lemma cv_loop_entries:
  "cv_loop L s n model_list = (Inr model_list', s') \<Longrightarrow>
   list_all (candidate_entry s) model_list \<Longrightarrow>
   list_all (candidate_entry s) model_list'"
proof (induction L s n model_list rule: cv_loop.induct)
  case (1 L s n model_list)
  show ?case
  proof (cases "min_n_components s \<le> n \<and> n \<le> max_n_components s")
    case False
    with "1.prems" show ?thesis by (subst (asm) cv_loop.simps) auto
  next
    case True
    obtain x s1 where c: "cv_candidate L s n = (x, s1)" by (cases "cv_candidate L s n")
    from cv_candidate_frame[OF c] have f1: "s1 = s\<lparr>X := X s1, lengths := lengths s1\<rparr>" .
    show ?thesis
    proof (cases x)
      case (Inl e)
      with "1.prems" True c show ?thesis by (subst (asm) cv_loop.simps) simp
    next
      case (Inr entry)
      with "1.prems" True c
      have l: "cv_loop L s1 (n + 1) (model_list @ [entry]) = (Inr model_list', s')"
        by (subst (asm) cv_loop.simps) simp
      from c Inr True have "candidate_entry s entry" by (simp add: cv_candidate_entry)
      with "1.prems"(2) have "list_all (candidate_entry s1) (model_list @ [entry])"
        by (simp add: list_all_iff candidate_entry_frame[OF f1])
      from "1.IH"[OF True c[symmetric] Inr l this] show ?thesis
        by (simp add: list_all_iff candidate_entry_frame[OF f1])
    qed
  qed
qed

section \<open>An example corpus\<close>

text \<open>
  Two words; the selector is the one for \<open>UP\<close>, whose three training sequences have one
  frame each. The example library's fit fails for four states and otherwise returns
  the training observations as the fitted parameters, so that models fitted on different
  data differ; the score of an n-state model on x is minus n times the frame count of x.
\<close>

definition corpus_lib :: "obs hmmlearn" where
  "corpus_lib = \<lparr>hmm_fit = (\<lambda>n seed x ls. if n = 4 then None else Some x),
                 hmm_score = (\<lambda>m x ls. Some (- (real_of_int (n_components m) * real (length x))))\<rparr>"

definition demo_words :: "(string \<times> obs list) list" where
  "demo_words = [(''UP'', [[[0]], [[1]], [[2]]]),
                 (''DOWN'', [[[5], [6]], [[7], [8], [9]]])]"

definition demo_hwords :: "(string \<times> (obs \<times> int list)) list" where
  "demo_hwords = [(''UP'', ([[0], [1], [2]], [1, 1, 1])),
                  (''DOWN'', ([[5], [6], [7], [8], [9]], [2, 3]))]"

definition demo_selector :: "int \<Rightarrow> int \<Rightarrow> int \<Rightarrow> selector" where
  "demo_selector c lo hi =
     \<lparr>words = demo_words, hwords = demo_hwords,
      sequences = [[[0]], [[1]], [[2]]], X = [[0], [1], [2]], lengths = [1, 1, 1],
      this_word = ''UP'', n_constant = c, min_n_components = lo, max_n_components = hi,
      random_state = 14\<rparr>"

lemma demo_selector_init:
  "init_selector demo_words demo_hwords ''UP'' c lo hi 14 = Inr (demo_selector c lo hi)"
  by (simp add: init_selector_def dict_get_def demo_words_def demo_hwords_def
      demo_selector_def)

lemma demo_selector_fields:
  "words (demo_selector c lo hi) = demo_words"
  "hwords (demo_selector c lo hi) = demo_hwords"
  "sequences (demo_selector c lo hi) = [[[0]], [[1]], [[2]]]"
  "X (demo_selector c lo hi) = [[0], [1], [2]]"
  "lengths (demo_selector c lo hi) = [1, 1, 1]"
  "this_word (demo_selector c lo hi) = ''UP''"
  "n_constant (demo_selector c lo hi) = c"
  "min_n_components (demo_selector c lo hi) = lo"
  "max_n_components (demo_selector c lo hi) = hi"
  "random_state (demo_selector c lo hi) = 14"
  by (simp_all add: demo_selector_def)

lemma corpus_lib_fields:
  "hmm_fit corpus_lib n seed x ls = (if n = 4 then None else Some x)"
  "hmm_score corpus_lib m x ls = Some (- (real_of_int (n_components m) * real (length x)))"
  by (simp_all add: corpus_lib_def)

lemma ln3_pos: "0 < ln (3::real)"
  by simp

lemma demo_bic_loop:
  "bic_loop corpus_lib (demo_selector c 2 3) 2 [] =
     [(PyModel \<lparr>n_components = 2, params = [[0], [1], [2]]\<rparr>, 12 + 2 * ln 3),
      (PyModel \<lparr>n_components = 3, params = [[0], [1], [2]]\<rparr>, 18 + 3 * ln 3)]"
  by (simp add: bic_loop.simps bic_step_def base_model_def py_score_def scoreBIC_def
      corpus_lib_fields demo_selector_fields)

lemma demo_select_bic:
  "select_bic corpus_lib (demo_selector c 2 3) =
     Inr (PyModel \<lparr>n_components = 3, params = [[0], [1], [2]]\<rparr>)"
proof -
  have "(12::real) + 2 * ln 3 < 18 + 3 * ln 3" using ln3_pos by linarith
  then show ?thesis
    by (simp add: select_bic_def demo_bic_loop py_max_def demo_selector_fields)
qed

lemma demo_avgscore_int:
  "calculate_avgscore_otherwords corpus_lib (demo_selector c lo hi) ''UP'' (PyInt n) = Inr 0"
  by (simp add: calculate_avgscore_otherwords_def dict_get_def py_score_def
      demo_selector_fields demo_words_def demo_hwords_def)

lemma demo_avgscore_model:
  "calculate_avgscore_otherwords corpus_lib (demo_selector c lo hi) ''UP''
     (PyModel \<lparr>n_components = n, params = p\<rparr>) = Inr (- (real_of_int n * 5))"
  by (simp add: calculate_avgscore_otherwords_def dict_get_def py_score_def
      demo_selector_fields demo_words_def demo_hwords_def corpus_lib_fields)

lemma demo_dic_loop:
  "dic_loop corpus_lib (demo_selector c 2 3) 2 [] =
     [(PyModel \<lparr>n_components = 2, params = [[0], [1], [2]]\<rparr>, - 6),
      (PyModel \<lparr>n_components = 3, params = [[0], [1], [2]]\<rparr>, - 9)]"
  by (simp add: dic_loop.simps dic_step_def demo_selector_fields demo_avgscore_int
      base_model_def py_score_def corpus_lib_fields)

lemma demo_select_dic:
  "select_dic corpus_lib (demo_selector c 2 3) =
     Inr (PyModel \<lparr>n_components = 2, params = [[0], [1], [2]]\<rparr>)"
  by (simp add: select_dic_def demo_dic_loop py_max_def demo_selector_fields)

lemma demo_kfold:
  "kfold_split N_SPLITS 3 = Inr [([1, 2], [0]), ([0, 2], [1]), ([0, 1], [2])]"
  by code_simp

lemma demo_kfold_Suc:
  "kfold_split N_SPLITS (Suc (Suc (Suc 0))) = Inr [([1, 2], [0]), ([0, 2], [1]), ([0, 1], [2])]"
  using demo_kfold by (simp add: numeral_3_eq_3)

lemma real_N_SPLITS: "real N_SPLITS = 3"
  by (simp add: N_SPLITS_def)

lemma demo_cv_candidate:
  assumes "n \<noteq> 4" and "sequences s = [[[0]], [[1]], [[2]]]"
  shows "cv_candidate corpus_lib s n =
     (Inr (PyModel \<lparr>n_components = n, params = [[0], [1]]\<rparr>, - real_of_int n),
      s\<lparr>X := [[0], [1]], lengths := [1, 1]\<rparr>)"
  using assms
  by (simp add: cv_candidate_def demo_kfold_Suc combine_sequences_def base_model_def
      py_score_def corpus_lib_fields real_N_SPLITS)

lemma demo_cv_loop:
  "cv_loop corpus_lib (demo_selector c 2 3) 2 [] =
     (Inr [(PyModel \<lparr>n_components = 2, params = [[0], [1]]\<rparr>, - 2),
           (PyModel \<lparr>n_components = 3, params = [[0], [1]]\<rparr>, - 3)],
      (demo_selector c 2 3)\<lparr>X := [[0], [1]], lengths := [1, 1]\<rparr>)"
  by (simp add: cv_loop.simps demo_cv_candidate demo_selector_fields)

lemma demo_select_cv:
  "select_cv corpus_lib (demo_selector c 2 3) =
     (Inr (PyModel \<lparr>n_components = 2, params = [[0], [1]]\<rparr>),
      (demo_selector c 2 3)\<lparr>X := [[0], [1]], lengths := [1, 1]\<rparr>)"
  by (simp add: select_cv_def demo_cv_loop py_max_def demo_selector_fields)

lemma demo_select_constant:
  "select_constant corpus_lib (demo_selector c lo hi) =
     (if c = 4 then PyNone else PyModel \<lparr>n_components = c, params = [[0], [1], [2]]\<rparr>)"
  by (simp add: select_constant_def base_model_def corpus_lib_fields demo_selector_fields)

text \<open>A word with only two training sequences.\<close>

definition short_selector :: "int \<Rightarrow> int \<Rightarrow> selector" where
  "short_selector lo hi =
     \<lparr>words = [(''UP'', [[[0]], [[1]]])], hwords = [(''UP'', ([[0], [1]], [1, 1]))],
      sequences = [[[0]], [[1]]], X = [[0], [1]], lengths = [1, 1],
      this_word = ''UP'', n_constant = 3, min_n_components = lo, max_n_components = hi,
      random_state = 14\<rparr>"

section \<open>Claims about the selectors\<close>


text \<open>
  The state counts a selector may return for a word: one of the candidate range, or the
  fallback constant.
\<close>

definition state_count_allowed :: "selector \<Rightarrow> 'p gaussian_hmm \<Rightarrow> bool" where
  "state_count_allowed s m =
     ((min_n_components s \<le> n_components m \<and> n_components m \<le> max_n_components s)
      \<or> n_components m = n_constant s)"

lemma base_model_count: "base_model L s k = PyModel m \<Longrightarrow> n_components m = k"
  using base_model_cases[of L s k] by auto

lemma select_bic_count:
  assumes "select_bic L s = Inr (PyModel m)"
  shows "state_count_allowed s m"
proof (cases "bic_loop L s (min_n_components s) [] = []")
  case True
  with assms have "base_model L s (n_constant s) = PyModel m"
    by (simp add: select_bic_def)
  then show ?thesis by (simp add: state_count_allowed_def base_model_count)
next
  case False
  with assms have "py_max (\<lambda>a b. a > b) (bic_loop L s (min_n_components s) []) = Inr (PyModel m)"
    by (simp add: select_bic_def)
  from py_max_candidate[OF _ this, of s] bic_loop_entries[of s "[]" L "min_n_components s"]
  show ?thesis by (simp add: state_count_allowed_def)
qed

lemma select_dic_count:
  assumes "select_dic L s = Inr (PyModel m)"
  shows "state_count_allowed s m"
proof (cases "dic_loop L s (min_n_components s) [] = []")
  case True
  with assms have "base_model L s (n_constant s) = PyModel m"
    by (simp add: select_dic_def)
  then show ?thesis by (simp add: state_count_allowed_def base_model_count)
next
  case False
  with assms have "py_max (\<lambda>a b. a > b) (dic_loop L s (min_n_components s) []) = Inr (PyModel m)"
    by (simp add: select_dic_def)
  from py_max_candidate[OF _ this, of s] dic_loop_entries[of s "[]" L "min_n_components s"]
  show ?thesis by (simp add: state_count_allowed_def)
qed

lemma select_cv_count:
  assumes "select_cv L s = (Inr (PyModel m), s')"
  shows "state_count_allowed s m"
proof -
  obtain r s1 where l: "cv_loop L s (min_n_components s) [] = (r, s1)"
    by (cases "cv_loop L s (min_n_components s) []")
  from cv_loop_frame[OF l] have f: "s1 = s\<lparr>X := X s1, lengths := lengths s1\<rparr>" .
  show ?thesis
  proof (cases r)
    case (Inl e)
    with assms l have "base_model L s1 (n_constant s1) = PyModel m"
      by (auto simp: select_cv_def)
    then have "n_components m = n_constant s1" by (rule base_model_count)
    with frame_fields(3)[OF f] show ?thesis by (simp add: state_count_allowed_def)
  next
    case (Inr model_list)
    with assms l have "py_max (\<lambda>a b. a > b) model_list = Inr (PyModel m)"
      by (auto simp: select_cv_def)
    moreover from l Inr have "list_all (candidate_entry s) model_list"
      using cv_loop_entries[of L s "min_n_components s" "[]" model_list s1] by simp
    ultimately show ?thesis
      using py_max_candidate[of s model_list "\<lambda>a b. a > b" "PyModel m"]
      by (simp add: state_count_allowed_def)
  qed
qed

text \<open>
  C9. Whenever \<open>select()\<close> of one of the four selectors returns a model, the model's
  state count lies in the closed interval from \<open>min_n_components\<close> to
  \<open>max_n_components\<close> or equals \<open>n_constant\<close>.
\<close>

theorem select_state_count:
  "(select_constant L s = PyModel m1 \<longrightarrow> state_count_allowed s m1) \<and>
   (select_bic L s = Inr (PyModel m2) \<longrightarrow> state_count_allowed s m2) \<and>
   (select_dic L s = Inr (PyModel m3) \<longrightarrow> state_count_allowed s m3) \<and>
   (select_cv L s = (Inr (PyModel m4), s') \<longrightarrow> state_count_allowed s m4)"
proof -
  have "state_count_allowed s m1" if "select_constant L s = PyModel m1"
    using that by (simp add: select_constant_def state_count_allowed_def base_model_count)
  then show ?thesis
    using select_bic_count select_dic_count select_cv_count by blast
qed

theorem select_state_count_witness:
  "select_constant corpus_lib (demo_selector 5 2 3) =
     PyModel \<lparr>n_components = 5, params = [[0], [1], [2]]\<rparr> \<and>
   select_bic corpus_lib (demo_selector 5 2 3) =
     Inr (PyModel \<lparr>n_components = 3, params = [[0], [1], [2]]\<rparr>) \<and>
   select_dic corpus_lib (demo_selector 5 2 3) =
     Inr (PyModel \<lparr>n_components = 2, params = [[0], [1], [2]]\<rparr>) \<and>
   select_cv corpus_lib (demo_selector 5 2 3) =
     (Inr (PyModel \<lparr>n_components = 2, params = [[0], [1]]\<rparr>),
      (demo_selector 5 2 3)\<lparr>X := [[0], [1]], lengths := [1, 1]\<rparr>) \<and>
   state_count_allowed (demo_selector 5 2 3)
     \<lparr>n_components = 5, params = [[0::real], [1], [2]]\<rparr> \<and>
   state_count_allowed (demo_selector 5 2 3)
     \<lparr>n_components = 3, params = [[0::real], [1], [2]]\<rparr> \<and>
   state_count_allowed (demo_selector 5 2 3)
     \<lparr>n_components = 2, params = [[0::real], [1], [2]]\<rparr> \<and>
   state_count_allowed (demo_selector 5 2 3)
     \<lparr>n_components = 2, params = [[0::real], [1]]\<rparr>"
proof -
  have c: "select_constant corpus_lib (demo_selector 5 2 3) =
     PyModel \<lparr>n_components = 5, params = [[0], [1], [2]]\<rparr>"
    by (simp add: demo_select_constant)
  note t = select_state_count[of corpus_lib "demo_selector 5 2 3"
      "\<lparr>n_components = 5, params = [[0], [1], [2]]\<rparr>"
      "\<lparr>n_components = 3, params = [[0], [1], [2]]\<rparr>"
      "\<lparr>n_components = 2, params = [[0], [1], [2]]\<rparr>"
      "\<lparr>n_components = 2, params = [[0], [1]]\<rparr>"
      "(demo_selector 5 2 3)\<lparr>X := [[0], [1]], lengths := [1, 1]\<rparr>"]
  from t c demo_select_bic[of 5] demo_select_dic[of 5] demo_select_cv[of 5]
  show ?thesis by blast
qed












lemma cv_candidate_short:
  "length (sequences s) < 3 \<Longrightarrow> cv_candidate L s n = (Inl ValueError, s)"
  by (simp add: cv_candidate_def kfold_split_small N_SPLITS_def)

text \<open>
  C6, as amended. For a word with fewer than three training sequences and a candidate
  range that is not empty, \<open>SelectorCV.select()\<close> returns exactly the result of the
  Constant selector, a model fitted with the fallback state count on the unchanged
  data, and leaves the selector as it was.
\<close>

theorem select_cv_few_sequences:
  assumes "length (sequences s) < 3"
    and "min_n_components s \<le> max_n_components s"
  shows "select_cv L s = (Inr (select_constant L s), s)"
proof -
  have "cv_loop L s (min_n_components s) [] = (Inl ValueError, s)"
    using assms by (subst cv_loop.simps) (simp add: cv_candidate_short)
  then show ?thesis by (simp add: select_cv_def select_constant_def)
qed

lemma short_selector_fields:
  "sequences (short_selector lo hi) = [[[0]], [[1]]]"
  "X (short_selector lo hi) = [[0], [1]]"
  "lengths (short_selector lo hi) = [1, 1]"
  "n_constant (short_selector lo hi) = 3"
  "min_n_components (short_selector lo hi) = lo"
  "max_n_components (short_selector lo hi) = hi"
  "random_state (short_selector lo hi) = 14"
  by (simp_all add: short_selector_def)

lemma short_select_constant:
  "select_constant corpus_lib (short_selector lo hi) =
     PyModel \<lparr>n_components = 3, params = [[0], [1]]\<rparr>"
  by (simp add: select_constant_def base_model_def corpus_lib_fields short_selector_fields)

theorem select_cv_few_sequences_witness:
  "length (sequences (short_selector 2 3)) < 3 \<and>
   min_n_components (short_selector 2 3) \<le> max_n_components (short_selector 2 3) \<and>
   select_cv corpus_lib (short_selector 2 3) =
     (Inr (PyModel \<lparr>n_components = 3, params = [[0], [1]]\<rparr>), short_selector 2 3)"
proof -
  have a: "length (sequences (short_selector 2 3)) < 3"
    by (simp add: short_selector_fields)
  have b: "min_n_components (short_selector 2 3) \<le> max_n_components (short_selector 2 3)"
    by (simp add: short_selector_fields)
  from select_cv_few_sequences[OF a b, of corpus_lib] short_select_constant[of 2 3] a b
  show ?thesis by simp
qed

text \<open>
  With an empty candidate range the loop body never runs, no exception is raised inside
  the \<open>try\<close>, and the \<open>max\<close> over the empty \<open>model_list\<close> raises \<open>ValueError\<close>, while
  the Constant selector returns its model.
\<close>

theorem select_cv_empty_range_counterexample:
  "length (sequences (short_selector 3 2)) < 3 \<and>
   fst (select_cv corpus_lib (short_selector 3 2)) = Inl ValueError \<and>
   select_constant corpus_lib (short_selector 3 2) =
     PyModel \<lparr>n_components = 3, params = [[0], [1]]\<rparr>"
proof -
  have "cv_loop corpus_lib (short_selector 3 2) 3 [] = (Inr [], short_selector 3 2)"
    by (simp add: cv_loop.simps short_selector_fields)
  then show ?thesis
    by (simp add: select_cv_def py_max_def short_selector_fields short_select_constant)
qed

subsection \<open>What \<open>SelectorCV.select\<close> leaves in \<open>self.X\<close> and \<open>self.lengths\<close>\<close>

lemma cv_folds_state:
  assumes "\<forall>f\<in>set folds. list_all (\<lambda>i. i < length (sequences s)) (fst f)"
    and "cv_folds L n folds s m a = (r, s')" and "folds \<noteq> []"
  shows "\<exists>f\<in>set folds. combine_sequences (fst f) (sequences s) = Inr (X s', lengths s')"
  using assms
proof (induction folds arbitrary: s m a)
  case Nil
  then show ?case by simp
next
  case (Cons f folds)
  obtain tr te where f: "f = (tr, te)" by (cases f)
  from Cons.prems(1) f have "list_all (\<lambda>i. i < length (sequences s)) tr" by simp
  from combine_sequences_ok[OF this] obtain tx tl where
    c1: "combine_sequences tr (sequences s) = Inr (tx, tl)" by blast
  let ?s1 = "s\<lparr>X := tx, lengths := tl\<rparr>"
  have here: "combine_sequences (fst f) (sequences s) = Inr (X ?s1, lengths ?s1)"
    using c1 f by simp
  show ?case
  proof (cases "combine_sequences te (sequences ?s1)")
    case (Inl e)
    with Cons.prems(2) f c1 have "s' = ?s1" by (auto simp: Let_def)
    with here show ?thesis by auto
  next
    case (Inr c2)
    obtain ux ul where c2: "c2 = (ux, ul)" by (cases c2)
    show ?thesis
    proof (cases "py_score L (base_model L ?s1 n) ux ul")
      case (Inl e)
      with Cons.prems(2) f c1 Inr c2 have "s' = ?s1" by (auto simp: Let_def)
      with here show ?thesis by auto
    next
      case sc: (Inr v)
      with Cons.prems(2) f c1 Inr c2
      have rec: "cv_folds L n folds ?s1 (base_model L ?s1 n) (a + v) = (r, s')"
        by (simp add: Let_def)
      show ?thesis
      proof (cases "folds = []")
        case True
        with rec have "s' = ?s1" by simp
        with here show ?thesis by auto
      next
        case False
        from Cons.prems(1)
        have "\<forall>g\<in>set folds. list_all (\<lambda>i. i < length (sequences ?s1)) (fst g)" by simp
        from Cons.IH[OF this rec False] show ?thesis by auto
      qed
    qed
  qed
qed

text \<open>
  \<open>self.X\<close> and \<open>self.lengths\<close> of \<open>s'\<close> are the concatenated form of the training
  partition of one of the folds of the sequence list of \<open>s\<close>.
\<close>

definition fold_trained :: "selector \<Rightarrow> selector \<Rightarrow> bool" where
  "fold_trained s s' =
     (\<exists>folds tr te.
        kfold_split N_SPLITS (length (sequences s)) = Inr folds \<and> (tr, te) \<in> set folds \<and>
        combine_sequences tr (sequences s) = Inr (X s', lengths s'))"

lemma cv_candidate_state:
  assumes "3 \<le> length (sequences s)" and "cv_candidate L s n = (r, s')"
  shows "fold_trained s s'"
proof -
  from assms(1) kfold_split_ok[of N_SPLITS "length (sequences s)"] obtain folds where
    k: "kfold_split N_SPLITS (length (sequences s)) = Inr folds"
    by (auto simp: N_SPLITS_def)
  from kfold_split_length[OF k] have ne: "folds \<noteq> []" by (auto simp: N_SPLITS_def)
  have rng: "\<forall>f\<in>set folds. list_all (\<lambda>i. i < length (sequences s)) (fst f)"
    using kfold_split_in_range[OF k] by auto
  obtain r1 where c: "cv_folds L n folds s PyNone 0 = (r1, s')"
    using assms(2) k by (auto simp: cv_candidate_def split: prod.splits sum.splits)
  from cv_folds_state[OF rng c ne] k show ?thesis
    unfolding fold_trained_def by (metis prod.collapse)
qed

lemma fold_trained_frame:
  "s1 = s\<lparr>X := x, lengths := ls\<rparr> \<Longrightarrow> fold_trained s1 s' = fold_trained s s'"
  by (simp add: fold_trained_def)

lemma cv_loop_state:
  "cv_loop L s n model_list = (r, s') \<Longrightarrow> 3 \<le> length (sequences s) \<Longrightarrow>
   min_n_components s \<le> n \<and> n \<le> max_n_components s \<Longrightarrow> fold_trained s s'"
proof (induction L s n model_list rule: cv_loop.induct)
  case (1 L s n model_list)
  note True = "1.prems"(3)
  obtain x s1 where c: "cv_candidate L s n = (x, s1)" by (cases "cv_candidate L s n")
  from cv_candidate_frame[OF c] have f1: "s1 = s\<lparr>X := X s1, lengths := lengths s1\<rparr>" .
  from cv_candidate_state[OF "1.prems"(2) c] have t1: "fold_trained s s1" .
  show ?case
  proof (cases x)
    case (Inl e)
    with "1.prems"(1) True c have "s' = s1" by (subst (asm) cv_loop.simps) simp
    with t1 show ?thesis by simp
  next
    case (Inr entry)
    with "1.prems"(1) True c
    have l: "cv_loop L s1 (n + 1) (model_list @ [entry]) = (r, s')"
      by (subst (asm) cv_loop.simps) simp
    show ?thesis
    proof (cases "min_n_components s1 \<le> n + 1 \<and> n + 1 \<le> max_n_components s1")
      case False
      with l have "s' = s1" by (subst (asm) cv_loop.simps) auto
      with t1 show ?thesis by simp
    next
      case next_in: True
      have "3 \<le> length (sequences s1)" using "1.prems"(2) frame_fields(4)[OF f1] by simp
      from "1.IH"[OF True c[symmetric] Inr l this next_in]
      have "fold_trained s1 s'" .
      with fold_trained_frame[OF f1] show ?thesis by simp
    qed
  qed
qed

text \<open>
  The two representations of a word's training data agree: the concatenated matrix holds
  the frames of all the word's sequences, in order, and the length list their lengths.
\<close>

definition corpus_consistent :: "selector \<Rightarrow> bool" where
  "corpus_consistent s =
     (X s = concat (sequences s) \<and> lengths s = map (\<lambda>sq. int (length sq)) (sequences s))"

text \<open>
  C7, as amended. \<open>SelectorCV.select()\<close> changes nothing of the selector but
  \<open>self.X\<close> and \<open>self.lengths\<close> (the sequence list, the shared corpora and the
  configuration stay). With fewer than three sequences or an empty candidate range these
  two stay as well; otherwise, on return, they are what \<open>combine_sequences\<close> derives from
  the sequence list for the training partition of one of the three folds.
\<close>

theorem select_cv_rebinds_X:
  assumes "select_cv L s = (r, s')"
  shows "s' = s\<lparr>X := X s', lengths := lengths s'\<rparr> \<and>
         (length (sequences s) < 3 \<or> max_n_components s < min_n_components s \<longrightarrow> s' = s) \<and>
         (3 \<le> length (sequences s) \<and> min_n_components s \<le> max_n_components s \<longrightarrow>
            fold_trained s s')"
proof -
  obtain r1 where l: "cv_loop L s (min_n_components s) [] = (r1, s')"
    using assms by (auto simp: select_cv_def split: prod.splits sum.splits)
  have a: "s' = s\<lparr>X := X s', lengths := lengths s'\<rparr>" using cv_loop_frame[OF l] .
  have b: "s' = s" if "length (sequences s) < 3 \<or> max_n_components s < min_n_components s"
  proof (cases "max_n_components s < min_n_components s")
    case True
    with l show ?thesis by (subst (asm) cv_loop.simps) simp
  next
    case False
    with that have "length (sequences s) < 3" by simp
    with l False show ?thesis
      by (subst (asm) cv_loop.simps) (simp add: cv_candidate_short)
  qed
  have c: "fold_trained s s'"
    if "3 \<le> length (sequences s) \<and> min_n_components s \<le> max_n_components s"
    using cv_loop_state[OF l] that by simp
  from a b c show ?thesis by blast
qed

lemma demo_fold_trained:
  "fold_trained (demo_selector c lo hi)
     ((demo_selector c lo hi)\<lparr>X := [[0], [1]], lengths := [1, 1]\<rparr>)"
  unfolding fold_trained_def
  by (intro exI[of _ "[([1, 2], [0]), ([0, 2], [1]), ([0, 1], [2])]"] exI[of _ "[0, 1]"]
      exI[of _ "[2]"])
     (simp add: demo_selector_fields demo_kfold_Suc combine_sequences_def)

theorem select_cv_rebinds_X_witness:
  "select_cv corpus_lib (demo_selector 5 2 3) =
     (Inr (PyModel \<lparr>n_components = 2, params = [[0], [1]]\<rparr>),
      (demo_selector 5 2 3)\<lparr>X := [[0], [1]], lengths := [1, 1]\<rparr>) \<and>
   3 \<le> length (sequences (demo_selector 5 2 3)) \<and>
   min_n_components (demo_selector 5 2 3) \<le> max_n_components (demo_selector 5 2 3) \<and>
   fold_trained (demo_selector 5 2 3)
     ((demo_selector 5 2 3)\<lparr>X := [[0], [1]], lengths := [1, 1]\<rparr>) \<and>
   length (sequences (short_selector 2 3)) < 3 \<and>
   snd (select_cv corpus_lib (short_selector 2 3)) = short_selector 2 3"
proof -
  have a: "3 \<le> length (sequences (demo_selector 5 2 3))"
    and b: "min_n_components (demo_selector 5 2 3) \<le> max_n_components (demo_selector 5 2 3)"
    by (simp_all add: demo_selector_fields)
  have c: "length (sequences (short_selector 2 3)) < 3"
    by (simp add: short_selector_fields)
  obtain r2 s2 where s2: "select_cv corpus_lib (short_selector 2 3) = (r2, s2)"
    by (cases "select_cv corpus_lib (short_selector 2 3)")
  from select_cv_rebinds_X[OF s2] c have "s2 = short_selector 2 3" by blast
  with s2 have d: "snd (select_cv corpus_lib (short_selector 2 3)) = short_selector 2 3"
    by simp
  from select_cv_rebinds_X[OF demo_select_cv[of 5]] a b
  have "fold_trained (demo_selector 5 2 3)
     ((demo_selector 5 2 3)\<lparr>X := [[0], [1]], lengths := [1, 1]\<rparr>)" by blast
  with demo_select_cv[of 5] a b c d show ?thesis by blast
qed

text \<open>
  Before the call the example selector's two representations agree; after it
  \<open>self.X\<close> holds the frames of the first two sequences only.
\<close>

theorem select_cv_breaks_consistency_counterexample:
  "corpus_consistent (demo_selector 5 2 3) \<and>
   \<not> corpus_consistent (snd (select_cv corpus_lib (demo_selector 5 2 3)))"
  by (simp add: demo_select_cv corpus_consistent_def demo_selector_fields)

subsection \<open>Cross-validation scores\<close>
















section \<open>Where the code departs from its own description\<close>

text \<open>
  C1. The docstring of \<open>SelectorBIC\<close> and the claim ask for the candidate with the
  lowest BIC. \<open>select\<close> stores the BIC itself (with the state count as the number of
  parameters) and takes \<open>max\<close>: on the example corpus, where both candidates fit and
  score, it returns the three-state model although the two-state model has the lower
  BIC.
\<close>

theorem select_bic_returns_largest_bic:
  "bic_loop corpus_lib (demo_selector 5 2 3) (min_n_components (demo_selector 5 2 3)) [] =
     [(PyModel \<lparr>n_components = 2, params = [[0], [1], [2]]\<rparr>, scoreBIC (- 6) 2 3),
      (PyModel \<lparr>n_components = 3, params = [[0], [1], [2]]\<rparr>, scoreBIC (- 9) 3 3)] \<and>
   scoreBIC (- 6) 2 3 < scoreBIC (- 9) 3 3 \<and>
   select_bic corpus_lib (demo_selector 5 2 3) =
     Inr (PyModel \<lparr>n_components = 3, params = [[0], [1], [2]]\<rparr>)"
proof -
  have "(12::real) + 2 * ln 3 < 18 + 3 * ln 3" using ln3_pos by linarith
  then show ?thesis
    by (simp add: demo_bic_loop demo_select_bic demo_selector_fields scoreBIC_def)
qed

lemma avgscore_loop_int:
  "avgscore_loop L hw w (PyInt n) ws a nw = Inr (a', nw') \<Longrightarrow> a' = a"
proof (induction ws arbitrary: nw)
  case Nil
  then show ?case by simp
next
  case (Cons word ws)
  show ?case
  proof (cases "word = w")
    case True
    with Cons show ?thesis by simp
  next
    case False
    with Cons.prems obtain x ls where "dict_get hw word = Inr (x, ls)"
      by (cases "dict_get hw word") auto
    with Cons.prems False
    have "avgscore_loop L hw w (PyInt n) ws a (nw - 1) = Inr (a', nw')"
      by (simp add: py_score_def)
    then show ?thesis by (rule Cons.IH)
  qed
qed

lemma avgscore_loop_error:
  "avgscore_loop L hw w m ws a nw = Inl e \<Longrightarrow> e = KeyError"
proof (induction ws arbitrary: a nw)
  case Nil
  then show ?case by simp
next
  case (Cons word ws)
  then show ?case
    by (auto simp: dict_get_def split: if_splits sum.splits option.splits prod.splits)
qed

text \<open>
  C2. The claim has the fitted model scored on every other word's data. Line 152 passes
  the state count \<open>n_components\<close>, an \<open>int\<close>, where \<open>calculate_avgscore_otherwords\<close>
  expects the model: every \<open>hmm_model.score\<close> inside it raises, every other word is
  counted as failed, and the average is 0 for any corpus. On the example corpus the
  score recorded for two states is the own-word score alone, while the same function
  called with the fitted model gives an average of -10 for the other word.
\<close>

theorem select_dic_average_always_zero:
  "(calculate_avgscore_otherwords L s w (PyInt n) = Inr 0 \<or>
    calculate_avgscore_otherwords L s w (PyInt n) = Inl KeyError) \<and>
   py_score corpus_lib (PyModel \<lparr>n_components = 2, params = [[0], [1], [2]]\<rparr>)
     (X (demo_selector 5 2 3)) (lengths (demo_selector 5 2 3)) = Inr (- 6) \<and>
   calculate_avgscore_otherwords corpus_lib (demo_selector 5 2 3) ''UP''
     (PyModel \<lparr>n_components = 2, params = [[0], [1], [2]]\<rparr>) = Inr (- 10) \<and>
   calculate_avgscore_otherwords corpus_lib (demo_selector 5 2 3) ''UP'' (PyInt 2) = Inr 0 \<and>
   dic_step corpus_lib (demo_selector 5 2 3) 2 [] =
     [(PyModel \<lparr>n_components = 2, params = [[0], [1], [2]]\<rparr>, - 6)]"
proof -
  have general: "calculate_avgscore_otherwords L s w (PyInt n) = Inr 0 \<or>
      calculate_avgscore_otherwords L s w (PyInt n) = Inl KeyError"
  proof (cases "avgscore_loop L (hwords s) w (PyInt n) (map fst (words s)) 0
                  (int (length (words s)) - 1)")
    case (Inl e)
    from avgscore_loop_error[OF this] Inl show ?thesis
      by (simp add: calculate_avgscore_otherwords_def)
  next
    case (Inr p)
    obtain a' nw' where p: "p = (a', nw')" by (cases p)
    with Inr avgscore_loop_int[of L "hwords s" w n "map fst (words s)" 0 _ a' nw']
    have "a' = 0" by simp
    with Inr p show ?thesis by (simp add: calculate_avgscore_otherwords_def)
  qed
  have own: "py_score corpus_lib (PyModel \<lparr>n_components = 2, params = [[0], [1], [2]]\<rparr>)
     (X (demo_selector 5 2 3)) (lengths (demo_selector 5 2 3)) = Inr (- 6)"
    by (simp add: py_score_def corpus_lib_fields demo_selector_fields)
  have step: "dic_step corpus_lib (demo_selector 5 2 3) 2 [] =
     [(PyModel \<lparr>n_components = 2, params = [[0], [1], [2]]\<rparr>, - 6)]"
    by (simp add: dic_step_def demo_selector_fields demo_avgscore_int base_model_def
        py_score_def corpus_lib_fields)
  from general own step demo_avgscore_model[of 5 2 3 2 "[[0], [1], [2]]"]
    demo_avgscore_int[of 5 2 3 2]
  show ?thesis by simp
qed

end
